theory Spec2Isabelle
  imports Complex_Main "HOL-Library.AList" "HOL-Library.Multiset"
begin

section \<open>Dotplot binning of \<open>ap_stat.py\<close>\<close>

text \<open>
  The three pure functions of \<open>ap_stat.py\<close> are embedded: \<open>get_stack_keys\<close> (the key
  generator), \<open>get_stack_dict\<close> (the binner) and \<open>get_points\<close> (the point projector).
  The plotting function \<open>dotplot\<close> only hands their results to matplotlib and is not
  modelled.

  A number of the dataset is a Python \<open>int\<close> or a Python \<open>float\<close>. An \<open>int\<close> is exact and
  unbounded; a \<open>float\<close> is a binary64 value, and every arithmetic result that is a
  \<open>float\<close> is the exact result rounded to the nearest binary64 value, ties to the even
  significand. The numeric domain of the model is the finite numbers whose magnitude
  binary64 can hold, with intermediate results that stay in that range: where Python
  would produce \<open>inf\<close>, \<open>nan\<close> or an OverflowError, the model rounds to 53 significant
  bits all the same, and says nothing about the code.

  Python compares an \<open>int\<close> with a \<open>float\<close> by their exact values, and a \<open>dict\<close> takes
  them for the same key when they are equal. The binner only compares numbers and looks
  them up, so it is run on the values (\<^typ>\<open>real\<close>) of keys and observations, and the
  resulting mapping holds values. A \<open>dict\<close> keeps its keys in the order of their first
  insertion; it is an association list whose update replaces the value of a key that is
  present where it stands and appends a new key at the end (\<^const>\<open>AList.update\<close>).
  \<open>num_stacks\<close> and the stack heights are Python integers: \<^typ>\<open>int\<close>.
  Every exception the code raises inside the numeric domain is a value of \<open>py_error\<close>.
\<close>

subsection \<open>Python numbers\<close>

datatype py_error = ValueError | ZeroDivisionError | IndexError | KeyError

datatype py_num = PyInt int | PyFloat real

fun val :: "py_num \<Rightarrow> real" where
  "val (PyInt i) = of_int i"
| "val (PyFloat x) = x"

text \<open>
  The binary64 values are the numbers \<open>m * 2 ^ q\<close> with an integer \<open>\<bar>m\<bar> < 2 ^ 53\<close> and
  \<open>- 1074 \<le> q \<le> 971\<close>. The quantum exponent of \<open>x\<close> is the least such \<open>q\<close> with
  \<open>\<bar>x\<bar> < 2 ^ (q + 53)\<close>, found by counting up from \<open>- 1074\<close> (the subnormal spacing) and
  ending at 971 (the spacing of the top binade).
\<close>

fun quantum_from :: "nat \<Rightarrow> int \<Rightarrow> real \<Rightarrow> int" where
  "quantum_from 0 q x = q"
| "quantum_from (Suc fuel) q x =
     (if \<bar>x\<bar> < 2 powi (q + 53) then q else quantum_from fuel (q + 1) x)"

definition quantum :: "real \<Rightarrow> int" where
  "quantum x = quantum_from 2045 (- 1074) x"

text \<open>Rounding to the nearest integer, a tie going to the even one.\<close>

definition round_half_even :: "real \<Rightarrow> int" where
  "round_half_even t =
     (let f = \<lfloor>t\<rfloor> in
      if t - of_int f < 1 / 2 then f
      else if 1 / 2 < t - of_int f then f + 1
      else if even f then f else f + 1)"

text \<open>Rounding to binary64: the nearest multiple of the quantum of \<open>x\<close>.\<close>

definition round_double :: "real \<Rightarrow> real" where
  "round_double x = of_int (round_half_even (x / 2 powi quantum x)) * 2 powi quantum x"

text \<open>\<open>float(a)\<close>, the conversion that mixed arithmetic applies to an \<open>int\<close> operand.\<close>

fun to_float :: "py_num \<Rightarrow> real" where
  "to_float (PyInt i) = round_double (of_int i)"
| "to_float (PyFloat x) = x"

text \<open>\<open>a - b\<close>, \<open>a * b\<close> and \<open>a + b\<close>: exact on two \<open>int\<close>s; otherwise both operands are
  taken as \<open>float\<close>s and the result is rounded.\<close>

fun py_sub :: "py_num \<Rightarrow> py_num \<Rightarrow> py_num" where
  "py_sub (PyInt i) (PyInt j) = PyInt (i - j)"
| "py_sub a b = PyFloat (round_double (to_float a - to_float b))"

fun py_mul :: "py_num \<Rightarrow> py_num \<Rightarrow> py_num" where
  "py_mul (PyInt i) (PyInt j) = PyInt (i * j)"
| "py_mul a b = PyFloat (round_double (to_float a * to_float b))"

fun py_add :: "py_num \<Rightarrow> py_num \<Rightarrow> py_num" where
  "py_add (PyInt i) (PyInt j) = PyInt (i + j)"
| "py_add a b = PyFloat (round_double (to_float a + to_float b))"

text \<open>\<open>a / b\<close>: true division. ZeroDivisionError when the divisor is zero; otherwise a
  \<open>float\<close>: for two \<open>int\<close>s the exact quotient rounded once, else the rounded quotient of
  the operands taken as \<open>float\<close>s.\<close>

fun true_quotient :: "py_num \<Rightarrow> py_num \<Rightarrow> real" where
  "true_quotient (PyInt i) (PyInt j) = round_double (of_int i / of_int j)"
| "true_quotient a b = round_double (to_float a / to_float b)"

definition py_truediv :: "py_num \<Rightarrow> py_num \<Rightarrow> py_error + py_num" where
  "py_truediv a b =
     (if val b = 0 then Inl ZeroDivisionError else Inr (PyFloat (true_quotient a b)))"

text \<open>\<open>max(data)\<close> and \<open>min(data)\<close>: ValueError on an empty sequence; otherwise the first
  item that no later item exceeds (falls below).\<close>

fun py_max :: "py_num list \<Rightarrow> py_error + py_num" where
  "py_max [] = Inl ValueError"
| "py_max (x # xs) =
     Inr (fold (\<lambda>item maxitem. if val maxitem < val item then item else maxitem) xs x)"

fun py_min :: "py_num list \<Rightarrow> py_error + py_num" where
  "py_min [] = Inl ValueError"
| "py_min (x # xs) =
     Inr (fold (\<lambda>item minitem. if val item < val minitem then item else minitem) xs x)"

subsection \<open>Python sequences and dicts\<close>

type_synonym stack_dict = "(real \<times> real list) list"

text \<open>\<open>range(n)\<close>: the integers from 0 to \<open>n - 1\<close>, none when \<open>n \<le> 0\<close>.\<close>

definition py_range :: "int \<Rightarrow> int list" where
  "py_range n = [0..n - 1]"

text \<open>A list comprehension whose element expression may raise: the first error ends it.\<close>

fun list_comp :: "('a \<Rightarrow> py_error + 'b) \<Rightarrow> 'a list \<Rightarrow> py_error + 'b list" where
  "list_comp f [] = Inr []"
| "list_comp f (x # xs) =
     (case f x of
        Inl e \<Rightarrow> Inl e
      | Inr y \<Rightarrow> (case list_comp f xs of Inl e \<Rightarrow> Inl e | Inr ys \<Rightarrow> Inr (y # ys)))"

text \<open>\<open>keys[-1]\<close>: IndexError on an empty list.\<close>

definition py_last :: "real list \<Rightarrow> py_error + real" where
  "py_last keys = (if keys = [] then Inl IndexError else Inr (last keys))"

text \<open>\<open>stack_dict[k].append(obs)\<close>: KeyError when \<open>k\<close> is not a key; otherwise the list
  bound to \<open>k\<close> grows at its end, and the key keeps its place in the dict.\<close>

definition dict_append :: "stack_dict \<Rightarrow> real \<Rightarrow> real \<Rightarrow> py_error + stack_dict" where
  "dict_append d k obs =
     (case map_of d k of
        None \<Rightarrow> Inl KeyError
      | Some l \<Rightarrow> Inr (AList.update k (l @ [obs]) d))"

subsection \<open>\<open>get_stack_keys\<close>\<close>

text \<open>
  \<^verbatim>\<open>
  upper_bound = max(data)
  lower_bound = min(data)
  stack_keys = [lower_bound + i * (upper_bound - lower_bound) / (num_stacks-1)
            for i in range(num_stacks)]
  return stack_keys
  \<close>
  The product and the quotient associate to the left: \<open>(i * (upper - lower)) / (num_stacks - 1)\<close>.
\<close>

definition get_stack_keys :: "py_num list \<Rightarrow> int \<Rightarrow> py_error + py_num list" where
  "get_stack_keys data num_stacks =
     (case py_max data of
        Inl e \<Rightarrow> Inl e
      | Inr upper_bound \<Rightarrow>
         (case py_min data of
            Inl e \<Rightarrow> Inl e
          | Inr lower_bound \<Rightarrow>
             list_comp
               (\<lambda>i. case py_truediv (py_mul (PyInt i) (py_sub upper_bound lower_bound))
                                    (PyInt (num_stacks - 1)) of
                       Inl e \<Rightarrow> Inl e
                     | Inr q \<Rightarrow> Inr (py_add lower_bound q))
               (py_range num_stacks)))"

subsection \<open>\<open>get_stack_dict\<close>\<close>

text \<open>\<open>{key:[] for key in keys}\<close>: each key is bound to a fresh empty list, in order; a key
  that occurs again is bound again and keeps its first place.\<close>

definition dict_init :: "real list \<Rightarrow> stack_dict" where
  "dict_init keys = fold (\<lambda>key d. AList.update key [] d) keys []"

text \<open>
  The inner loop, \<open>for i in range(1, len(keys))\<close>, from index \<open>i\<close> on: \<open>Some (i - 1)\<close> is
  the \<open>break\<close> at the first \<open>i\<close> with \<open>keys[i-1] <= observation < keys[i]\<close>
  (\<open>add_to_end = False\<close>), \<open>None\<close> is the loop running to its end (\<open>add_to_end\<close> still
  \<open>True\<close>). Both indices are in range throughout.
\<close>

function scan_keys :: "real list \<Rightarrow> real \<Rightarrow> nat \<Rightarrow> nat option" where
  "scan_keys keys observation i =
     (if i < length keys then
        (if keys ! (i - 1) \<le> observation \<and> observation < keys ! i then Some (i - 1)
         else scan_keys keys observation (Suc i))
      else None)"
  by pat_completeness auto
termination
  by (relation "measure (\<lambda>(keys, observation, i). length keys - i)") auto

text \<open>The body of \<open>for observation in data\<close>.\<close>

definition add_observation :: "real list \<Rightarrow> stack_dict \<Rightarrow> real \<Rightarrow> py_error + stack_dict" where
  "add_observation keys d observation =
     (case scan_keys keys observation 1 of
        Some j \<Rightarrow> dict_append d (keys ! j) observation
      | None \<Rightarrow>
         (case py_last keys of
            Inl e \<Rightarrow> Inl e
          | Inr k \<Rightarrow> dict_append d k observation))"

fun bin_loop :: "real list \<Rightarrow> stack_dict \<Rightarrow> real list \<Rightarrow> py_error + stack_dict" where
  "bin_loop keys d [] = Inr d"
| "bin_loop keys d (observation # rest) =
     (case add_observation keys d observation of
        Inl e \<Rightarrow> Inl e
      | Inr d' \<Rightarrow> bin_loop keys d' rest)"

text \<open>\<open>keys=None\<close> is \<open>None\<close>, a supplied sequence \<open>ks\<close> is \<open>Some ks\<close>. The loop runs on
  the values of the keys and of the observations.\<close>

definition get_stack_dict :: "py_num list \<Rightarrow> int \<Rightarrow> py_num list option \<Rightarrow> py_error + stack_dict" where
  "get_stack_dict data num_stacks keys =
     (case (case keys of
              None \<Rightarrow> get_stack_keys data num_stacks
            | Some ks \<Rightarrow> Inr ks) of
        Inl e \<Rightarrow> Inl e
      | Inr ks \<Rightarrow> bin_loop (map val ks) (dict_init (map val ks)) (map val data))"

subsection \<open>\<open>get_points\<close>\<close>

text \<open>
  \<^verbatim>\<open>
  ordered_pairs = []
  for key, observations in stack_dict.items():
      for i, obs in enumerate(observations):
          ordered_pairs.append((key, i+1))
  return ordered_pairs
  \<close>
\<close>

definition get_points :: "stack_dict \<Rightarrow> (real \<times> int) list" where
  "get_points stack_dict =
     fold (\<lambda>(key, observations) ordered_pairs.
             fold (\<lambda>(i, obs) acc. acc @ [(key, int i + 1)])
                  (enumerate 0 observations) ordered_pairs)
          stack_dict []"

subsection \<open>Derived notions used in the statements\<close>

text \<open>The key whose list receives an observation: the lower key of the pair where the
  scan stopped, the last key when it did not stop.\<close>

definition bin_key :: "real list \<Rightarrow> real \<Rightarrow> real" where
  "bin_key keys observation =
     (case scan_keys keys observation 1 of Some j \<Rightarrow> keys ! j | None \<Rightarrow> last keys)"

text \<open>The keys of a dict in iteration order, and the list bound to a key.\<close>

definition dict_keys :: "stack_dict \<Rightarrow> real list" where
  "dict_keys d = map fst d"


text \<open>A sequence with every repeated value dropped after its first occurrence.\<close>

fun first_occurrences :: "'a list \<Rightarrow> 'a list" where
  "first_occurrences [] = []"
| "first_occurrences (x # xs) = x # first_occurrences (removeAll x xs)"

text \<open>The values of the boundary keys the binner works with: of the supplied ones, or else
  of the generated ones (\<open>if keys == None: keys = get_stack_keys(data=data, num_stacks=num_stacks)\<close>).\<close>

definition keys_used :: "py_num list \<Rightarrow> int \<Rightarrow> py_num list option \<Rightarrow> py_error + real list" where
  "keys_used data num_stacks keys =
     (case (case keys of None \<Rightarrow> get_stack_keys data num_stacks | Some ks \<Rightarrow> Inr ks) of
        Inl e \<Rightarrow> Inl e
      | Inr ks \<Rightarrow> Inr (map val ks))"

text \<open>A number that binary64 holds exactly: rounding leaves it as it is.\<close>

definition is_double :: "real \<Rightarrow> bool" where
  "is_double x = (round_double x = x)"

text \<open>The points that one entry of the mapping contributes: heights 1, 2, \<dots> over its key.\<close>

definition stack_points :: "real \<times> real list \<Rightarrow> (real \<times> int) list" where
  "stack_points = (\<lambda>(key, observations). map (\<lambda>i. (key, int i + 1)) [0..<length observations])"

text \<open>The binary64 values that Python writes as \<open>0.3\<close>, \<open>0.9\<close>, \<open>0.45\<close>,
  \<open>0.6000000000000001\<close> and \<open>0.9000000000000001\<close> (the values of \<open>0.5\<close> and \<open>0.75\<close> are
  \<open>1 / 2\<close> and \<open>3 / 4\<close>).\<close>

abbreviation float_0_3 :: real where
  "float_0_3 \<equiv> 5404319552844595 / 18014398509481984"

abbreviation float_0_9 :: real where
  "float_0_9 \<equiv> 8106479329266893 / 9007199254740992"

abbreviation float_0_45 :: real where
  "float_0_45 \<equiv> 8106479329266893 / 18014398509481984"

abbreviation float_0_6000000000000001 :: real where
  "float_0_6000000000000001 \<equiv> 1351079888211149 / 2251799813685248"

abbreviation float_0_9000000000000001 :: real where
  "float_0_9000000000000001 \<equiv> 4053239664633447 / 4503599627370496"

declare scan_keys.simps [simp del]

section \<open>Rounding to binary64\<close>

lemma quantum_from_least:
  "q0 \<le> q \<Longrightarrow> q \<le> q0 + int fuel \<Longrightarrow>
   (\<And>q'. q0 \<le> q' \<Longrightarrow> q' < q \<Longrightarrow> 2 powi (q' + 53) \<le> \<bar>x\<bar>) \<Longrightarrow>
   \<bar>x\<bar> < 2 powi (q + 53) \<or> q = q0 + int fuel \<Longrightarrow>
   quantum_from fuel q0 x = q"
proof (induction fuel arbitrary: q0)
  case 0
  then show ?case by simp
next
  case (Suc fuel)
  show ?case
  proof (cases "q = q0")
    case True
    then show ?thesis
      using Suc.prems(4) by auto
  next
    case False
    then have lt: "q0 < q"
      using Suc.prems(1) by simp
    then have "2 powi (q0 + 53) \<le> \<bar>x\<bar>"
      using Suc.prems(3) [of q0] by simp
    moreover have "quantum_from fuel (q0 + 1) x = q"
    proof (rule Suc.IH)
      show "q0 + 1 \<le> q" using lt by simp
      show "q \<le> q0 + 1 + int fuel" using Suc.prems(2) by simp
      show "2 powi (q' + 53) \<le> \<bar>x\<bar>" if "q0 + 1 \<le> q'" "q' < q" for q'
        using that Suc.prems(3) [of q'] by simp
      show "\<bar>x\<bar> < 2 powi (q + 53) \<or> q = q0 + 1 + int fuel"
        using Suc.prems(4) by auto
    qed
    ultimately show ?thesis
      by simp
  qed
qed

lemma quantum_eq:
  assumes "- 1074 \<le> q" and "q \<le> 971"
    and "q = - 1074 \<or> 2 powi (q + 52) \<le> \<bar>x\<bar>"
    and "\<bar>x\<bar> < 2 powi (q + 53) \<or> q = 971"
  shows "quantum x = q"
  unfolding quantum_def
proof (rule quantum_from_least)
  show "- 1074 \<le> q" by fact
  show "q \<le> - 1074 + int 2045" using assms(2) by simp
  show "\<bar>x\<bar> < 2 powi (q + 53) \<or> q = - 1074 + int 2045"
    using assms(4) by auto
  show "2 powi (q' + 53) \<le> \<bar>x\<bar>" if "- 1074 \<le> q'" "q' < q" for q'
  proof -
    have "q \<noteq> - 1074" using that by simp
    then have low: "(2 :: real) powi (q + 52) \<le> \<bar>x\<bar>"
      using assms(3) by simp
    have "(2 :: real) powi (q' + 53) \<le> 2 powi (q + 52)"
      using that by (intro power_int_increasing) simp_all
    then show ?thesis
      using low by simp
  qed
qed

lemma quantum_from_upper:
  "q0 \<le> e \<Longrightarrow> \<bar>x\<bar> < 2 powi (e + 53) \<Longrightarrow> quantum_from fuel q0 x \<le> e"
proof (induction fuel arbitrary: q0)
  case 0
  then show ?case by simp
next
  case (Suc fuel)
  show ?case
  proof (cases "\<bar>x\<bar> < 2 powi (q0 + 53)")
    case True
    then show ?thesis
      using Suc.prems(1) by simp
  next
    case False
    then have "q0 \<noteq> e"
      using Suc.prems(2) by auto
    then have "q0 + 1 \<le> e"
      using Suc.prems(1) by simp
    then have "quantum_from fuel (q0 + 1) x \<le> e"
      using Suc.prems(2) by (rule Suc.IH)
    then show ?thesis
      using False by simp
  qed
qed

lemma round_half_even_of_int [simp]: "round_half_even (of_int k) = k"
  by (simp add: round_half_even_def)

lemma round_double_representable:
  assumes "\<bar>m\<bar> < 2 ^ 53" and "- 1074 \<le> e"
  shows "round_double (of_int m * 2 powi e) = of_int m * 2 powi e"
proof -
  define x :: real where "x = of_int m * 2 powi e"
  define q where "q = quantum x"
  have "\<bar>x\<bar> = of_int \<bar>m\<bar> * 2 powi e"
    by (simp add: x_def abs_mult)
  also have "\<dots> < 2 ^ 53 * 2 powi e"
  proof (rule mult_strict_right_mono)
    have "(of_int \<bar>m\<bar> :: real) < of_int (2 ^ 53)"
      using assms(1) by (simp only: of_int_less_iff)
    then show "(of_int \<bar>m\<bar> :: real) < 2 ^ 53"
      by simp
    show "(0 :: real) < 2 powi e"
      by simp
  qed
  also have "\<dots> = 2 powi (e + 53)"
    by (simp add: power_int_add)
  finally have "q \<le> e"
    unfolding q_def quantum_def using assms(2) by (intro quantum_from_upper) simp_all
  then obtain n where n: "e = q + int n"
    by (metis zle_iff_zadd)
  have "x / 2 powi q = of_int m * (2 powi e / 2 powi q)"
    by (simp add: x_def)
  also have "2 powi e / 2 powi q = (2 :: real) ^ n"
    by (simp add: n power_int_add)
  also have "of_int m * (2 :: real) ^ n = of_int (m * 2 ^ n)"
    by simp
  finally have "round_half_even (x / 2 powi q) = m * 2 ^ n"
    by (simp only: round_half_even_of_int)
  then have "round_double x = of_int (m * 2 ^ n) * 2 powi q"
    by (simp add: round_double_def q_def)
  also have "\<dots> = x"
    by (simp add: x_def n power_int_add)
  finally show ?thesis
    by (simp add: x_def)
qed

lemma round_double_zero [simp]: "round_double 0 = 0"
  using round_double_representable [of 0 0] by simp

lemma round_double_of_int:
  assumes "\<bar>i\<bar> \<le> 2 ^ 53"
  shows "round_double (of_int i) = of_int i"
proof (cases "\<bar>i\<bar> < 2 ^ 53")
  case True
  then show ?thesis
    using round_double_representable [of i 0] by simp
next
  case False
  then have "i = 2 ^ 53 \<or> i = - (2 ^ 53)"
    using assms by linarith
  then have "(of_int i :: real) = of_int (i div 2) * 2 powi 1"
    by auto
  moreover have "\<bar>i div 2\<bar> < 2 ^ 53"
    using \<open>i = 2 ^ 53 \<or> i = - (2 ^ 53)\<close> by auto
  ultimately show ?thesis
    using round_double_representable [of "i div 2" 1] by simp
qed

lemma round_double_one [simp]: "round_double 1 = 1"
  using round_double_of_int [of 1] by simp

lemma round_double_numeral:
  "(numeral n :: int) \<le> 2 ^ 53 \<Longrightarrow> round_double (numeral n) = numeral n"
  using round_double_of_int [of "numeral n"] by simp

lemma round_double_at:
  assumes "- 1074 \<le> q" and "q \<le> 971"
    and "q = - 1074 \<or> 2 powi (q + 52) \<le> \<bar>x\<bar>"
    and "\<bar>x\<bar> < 2 powi (q + 53) \<or> q = 971"
  shows "round_double x = of_int (round_half_even (x / 2 powi q)) * 2 powi q"
  using quantum_eq [OF assms] by (simp add: round_double_def)

lemma round_half_even_nearest:
  assumes "\<bar>t - of_int k\<bar> < 1 / 2 \<or> (\<bar>t - of_int k\<bar> = 1 / 2 \<and> even k)"
  shows "round_half_even t = k"
proof (cases "of_int k \<le> t")
  case True
  then have "\<lfloor>t\<rfloor> = k"
    using assms by (intro floor_unique) auto
  then show ?thesis
    using True assms by (auto simp: round_half_even_def)
next
  case False
  then have fl: "\<lfloor>t\<rfloor> = k - 1"
    using assms by (intro floor_unique) auto
  show ?thesis
    using False assms by (auto simp: round_half_even_def fl)
qed

lemma round_double_nearest:
  assumes "- 1074 \<le> q" and "q \<le> 971"
    and "q = - 1074 \<or> 2 powi (q + 52) \<le> \<bar>x\<bar>"
    and "\<bar>x\<bar> < 2 powi (q + 53) \<or> q = 971"
    and "\<bar>x - of_int k * 2 powi q\<bar> < 2 powi q / 2 \<or>
         (\<bar>x - of_int k * 2 powi q\<bar> = 2 powi q / 2 \<and> even k)"
  shows "round_double x = of_int k * 2 powi q"
proof -
  have pos: "(0 :: real) < 2 powi q"
    by simp
  have "x / 2 powi q - of_int k = (x - of_int k * 2 powi q) / 2 powi q"
    by (simp add: field_simps)
  then have "\<bar>x / 2 powi q - of_int k\<bar> = \<bar>x - of_int k * 2 powi q\<bar> / 2 powi q"
    using pos by (simp add: abs_divide)
  then have "\<bar>x / 2 powi q - of_int k\<bar> < 1 / 2 \<or>
      (\<bar>x / 2 powi q - of_int k\<bar> = 1 / 2 \<and> even k)"
    using assms(5) pos by (auto simp: field_simps)
  then have "round_half_even (x / 2 powi q) = k"
    by (rule round_half_even_nearest)
  then show ?thesis
    using round_double_at [OF assms(1-4)] by simp
qed

section \<open>The key generator\<close>

lemma fold_pick_in:
  assumes "\<And>item acc. f item acc = item \<or> f item acc = acc"
  shows "fold f xs x \<in> set (x # xs)"
proof (induction xs arbitrary: x)
  case Nil
  then show ?case by simp
next
  case (Cons y xs)
  have "f y x = y \<or> f y x = x"
    by (rule assms)
  then show ?case
    using Cons [of y] Cons [of x] by auto
qed

lemma py_max_in: "data \<noteq> [] \<Longrightarrow> \<exists>u. py_max data = Inr u \<and> u \<in> set data"
proof (cases data)
  case Nil
  assume "data \<noteq> []"
  then show ?thesis using Nil by simp
next
  case (Cons x xs)
  have "fold (\<lambda>item maxitem. if val maxitem < val item then item else maxitem) xs x \<in> set (x # xs)"
    by (rule fold_pick_in) simp
  then show ?thesis
    using Cons by simp
qed

lemma py_min_in: "data \<noteq> [] \<Longrightarrow> \<exists>l. py_min data = Inr l \<and> l \<in> set data"
proof (cases data)
  case Nil
  assume "data \<noteq> []"
  then show ?thesis using Nil by simp
next
  case (Cons x xs)
  have "fold (\<lambda>item minitem. if val item < val minitem then item else minitem) xs x \<in> set (x # xs)"
    by (rule fold_pick_in) simp
  then show ?thesis
    using Cons by simp
qed

lemma list_comp_all_ok:
  "(\<And>x. x \<in> set xs \<Longrightarrow> f x = Inr (g x)) \<Longrightarrow> list_comp f xs = Inr (map g xs)"
  by (induction xs) simp_all

text \<open>The key at index \<open>i\<close>, as line 26 computes it from the two bounds.\<close>

lemma get_stack_keys_ok:
  assumes "data \<noteq> []" and "num_stacks \<noteq> 1"
  shows "\<exists>u l. py_max data = Inr u \<and> u \<in> set data \<and> py_min data = Inr l \<and> l \<in> set data \<and>
           get_stack_keys data num_stacks =
             Inr (map (\<lambda>i. py_add l (PyFloat (true_quotient (py_mul (PyInt i) (py_sub u l))
                                                              (PyInt (num_stacks - 1)))))
                      [0..num_stacks - 1])"
proof -
  obtain u where u: "py_max data = Inr u" "u \<in> set data"
    using assms(1) py_max_in by blast
  obtain l where l: "py_min data = Inr l" "l \<in> set data"
    using assms(1) py_min_in by blast
  have nz: "val (PyInt (num_stacks - 1)) \<noteq> 0"
    using assms(2) by simp
  have "get_stack_keys data num_stacks =
      Inr (map (\<lambda>i. py_add l (PyFloat (true_quotient (py_mul (PyInt i) (py_sub u l))
                                                       (PyInt (num_stacks - 1)))))
               [0..num_stacks - 1])"
    unfolding get_stack_keys_def py_range_def
    using nz by (simp add: u l py_truediv_def list_comp_all_ok del: val.simps)
  then show ?thesis
    using u l by blast
qed

lemma get_stack_keys_nonempty:
  assumes "data \<noteq> []" and "2 \<le> num_stacks"
  shows "\<exists>ks. get_stack_keys data num_stacks = Inr ks \<and> length ks = nat num_stacks \<and> ks \<noteq> []"
proof -
  obtain ks where ks: "get_stack_keys data num_stacks = Inr ks"
    and len: "length ks = length [0..num_stacks - 1]"
    using get_stack_keys_ok [OF assms(1), of num_stacks] assms(2) by force
  have "length ks = nat num_stacks"
    using len by simp
  then show ?thesis
    using ks assms(2) by auto
qed

lemma get_stack_keys_one:
  assumes "data \<noteq> []"
  shows "get_stack_keys data 1 = Inl ZeroDivisionError"
proof -
  obtain u where u: "py_max data = Inr u"
    using assms py_max_in by blast
  obtain l where l: "py_min data = Inr l"
    using assms py_min_in by blast
  show ?thesis
    by (simp add: get_stack_keys_def py_range_def u l py_truediv_def)
qed

text \<open>
  Claim C7. On the empty dataset with no keys supplied, \<open>max(data)\<close> raises before
  anything else is computed: the key generator and the binner both end in ValueError,
  whatever \<open>num_stacks\<close> is (also for \<open>num_stacks = 1\<close>, where a division would
  have raised ZeroDivisionError had it been reached).
\<close>

theorem empty_dataset_value_error:
  "get_stack_keys [] num_stacks = Inl ValueError \<and>
   get_stack_dict [] num_stacks None = Inl ValueError"
  by (simp add: get_stack_keys_def get_stack_dict_def)

text \<open>
  Claim C6, as stated, fails for \<open>num_stacks \<le> 0\<close>: \<open>range(num_stacks)\<close> is empty, the
  comprehension never divides, and the key generator returns the empty list.
\<close>

theorem nonpositive_num_stacks_counterexample:
  "get_stack_keys [PyInt 1, PyInt 2] 0 = Inr [] \<and>
   get_stack_keys [PyInt 1, PyInt 2] 0 \<noteq> Inl ZeroDivisionError"
  by (simp add: get_stack_keys_def py_range_def)

text \<open>
  Claim C6, amended. For a non-empty dataset, \<open>num_stacks = 1\<close> makes the key
  generator (and the binner that calls it) raise ZeroDivisionError, with no key list. For
  \<open>num_stacks \<le> 0\<close> the key generator returns the empty key list without an error, and
  the binner then raises IndexError at \<open>keys[-1]\<close> for the first observation.
\<close>

theorem num_stacks_at_most_one:
  "data \<noteq> [] \<Longrightarrow>
     get_stack_keys data 1 = Inl ZeroDivisionError \<and>
     get_stack_dict data 1 None = Inl ZeroDivisionError \<and>
     (num_stacks \<le> 0 \<longrightarrow>
        get_stack_keys data num_stacks = Inr [] \<and>
        get_stack_dict data num_stacks None = Inl IndexError)"
proof -
  assume ne: "data \<noteq> []"
  have one: "get_stack_keys data 1 = Inl ZeroDivisionError"
    using ne by (rule get_stack_keys_one)
  have nonpos: "get_stack_keys data num_stacks = Inr []" if "num_stacks \<le> 0"
    using ne that get_stack_keys_ok [of data num_stacks] by auto
  have "bin_loop [] (dict_init []) (map val data) = Inl IndexError"
    using ne by (cases data)
      (simp_all add: dict_init_def add_observation_def py_last_def scan_keys.simps)
  then show ?thesis
    using one nonpos by (simp add: get_stack_dict_def)
qed

theorem num_stacks_at_most_one_witness:
  "[PyInt 1, PyInt 2] \<noteq> [] \<and> (0 :: int) \<le> 0 \<and>
   get_stack_keys [PyInt 1, PyInt 2] 1 = Inl ZeroDivisionError \<and>
   get_stack_keys [PyInt 1, PyInt 2] 0 = Inr [] \<and>
   get_stack_dict [PyInt 1, PyInt 2] 0 None = Inl IndexError"
  using num_stacks_at_most_one [of "[PyInt 1, PyInt 2]" 0] by simp

text \<open>
  The dataset \<open>[0.3, 0.5, 0.9]\<close> with five stacks: each arithmetic step of the five keys,
  rounded. The keys computed are the binary64 values that Python writes as
  \<open>[0.3, 0.45, 0.6000000000000001, 0.75, 0.9000000000000001]\<close>.
\<close>

lemma keys_three_tenths_to_nine_tenths:
  "get_stack_keys [PyFloat float_0_3, PyFloat (1 / 2), PyFloat float_0_9] 5 =
     Inr [PyFloat float_0_3, PyFloat float_0_45, PyFloat float_0_6000000000000001,
          PyFloat (3 / 4), PyFloat float_0_9000000000000001]"
proof -
  have sub: "py_sub (PyFloat float_0_9) (PyFloat float_0_3) = PyFloat float_0_6000000000000001"
    using round_double_nearest [where q = "- 53" and k = 5404319552844596
        and x = "float_0_9 - float_0_3"]
    by (simp add: power_int_minus round_double_numeral py_truediv_def)
  have mul0: "py_mul (PyInt 0) (PyFloat float_0_6000000000000001) = PyFloat 0"
    using round_double_nearest [where q = "- 1074" and k = 0
        and x = "0 * float_0_6000000000000001"]
    by (simp add: power_int_minus round_double_numeral py_truediv_def)
  have div0: "py_truediv (PyFloat 0) (PyInt 4) = Inr (PyFloat 0)"
    using round_double_nearest [where q = "- 1074" and k = 0
        and x = "(0) / 4"]
    by (simp add: power_int_minus round_double_numeral py_truediv_def)
  have add0: "py_add (PyFloat float_0_3) (PyFloat 0) = PyFloat float_0_3"
    using round_double_nearest [where q = "- 54" and k = 5404319552844595
        and x = "float_0_3 + 0"]
    by (simp add: power_int_minus round_double_numeral py_truediv_def)
  have mul1: "py_mul (PyInt 1) (PyFloat float_0_6000000000000001)
        = PyFloat float_0_6000000000000001"
    using round_double_nearest [where q = "- 53" and k = 5404319552844596
        and x = "1 * float_0_6000000000000001"]
    by (simp add: power_int_minus round_double_numeral py_truediv_def)
  have div1: "py_truediv (PyFloat float_0_6000000000000001) (PyInt 4)
        = Inr (PyFloat (1351079888211149 / 9007199254740992))"
    using round_double_nearest [where q = "- 55" and k = 5404319552844596
        and x = "float_0_6000000000000001 / 4"]
    by (simp add: power_int_minus round_double_numeral py_truediv_def)
  have add1: "py_add (PyFloat float_0_3) (PyFloat (1351079888211149 / 9007199254740992))
        = PyFloat float_0_45"
    using round_double_nearest [where q = "- 54" and k = 8106479329266893
        and x = "float_0_3 + 1351079888211149 / 9007199254740992"]
    by (simp add: power_int_minus round_double_numeral py_truediv_def)
  have mul2: "py_mul (PyInt 2) (PyFloat float_0_6000000000000001)
        = PyFloat (1351079888211149 / 1125899906842624)"
    using round_double_nearest [where q = "- 52" and k = 5404319552844596
        and x = "2 * float_0_6000000000000001"]
    by (simp add: power_int_minus round_double_numeral py_truediv_def)
  have div2: "py_truediv (PyFloat (1351079888211149 / 1125899906842624)) (PyInt 4)
        = Inr (PyFloat (1351079888211149 / 4503599627370496))"
    using round_double_nearest [where q = "- 54" and k = 5404319552844596
        and x = "(1351079888211149 / 1125899906842624) / 4"]
    by (simp add: power_int_minus round_double_numeral py_truediv_def)
  have add2: "py_add (PyFloat float_0_3) (PyFloat (1351079888211149 / 4503599627370496))
        = PyFloat float_0_6000000000000001"
    using round_double_nearest [where q = "- 53" and k = 5404319552844596
        and x = "float_0_3 + 1351079888211149 / 4503599627370496"]
    by (simp add: power_int_minus round_double_numeral py_truediv_def)
  have mul3: "py_mul (PyInt 3) (PyFloat float_0_6000000000000001)
        = PyFloat (4053239664633447 / 2251799813685248)"
    using round_double_nearest [where q = "- 52" and k = 8106479329266894
        and x = "3 * float_0_6000000000000001"]
    by (simp add: power_int_minus round_double_numeral py_truediv_def)
  have div3: "py_truediv (PyFloat (4053239664633447 / 2251799813685248)) (PyInt 4)
        = Inr (PyFloat (4053239664633447 / 9007199254740992))"
    using round_double_nearest [where q = "- 54" and k = 8106479329266894
        and x = "(4053239664633447 / 2251799813685248) / 4"]
    by (simp add: power_int_minus round_double_numeral py_truediv_def)
  have add3: "py_add (PyFloat float_0_3) (PyFloat (4053239664633447 / 9007199254740992))
        = PyFloat (3 / 4)"
    using round_double_nearest [where q = "- 53" and k = 6755399441055744
        and x = "float_0_3 + 4053239664633447 / 9007199254740992"]
    by (simp add: power_int_minus round_double_numeral py_truediv_def)
  have mul4: "py_mul (PyInt 4) (PyFloat float_0_6000000000000001)
        = PyFloat (1351079888211149 / 562949953421312)"
    using round_double_nearest [where q = "- 51" and k = 5404319552844596
        and x = "4 * float_0_6000000000000001"]
    by (simp add: power_int_minus round_double_numeral py_truediv_def)
  have div4: "py_truediv (PyFloat (1351079888211149 / 562949953421312)) (PyInt 4)
        = Inr (PyFloat float_0_6000000000000001)"
    using round_double_nearest [where q = "- 53" and k = 5404319552844596
        and x = "(1351079888211149 / 562949953421312) / 4"]
    by (simp add: power_int_minus round_double_numeral py_truediv_def)
  have add4: "py_add (PyFloat float_0_3) (PyFloat float_0_6000000000000001)
        = PyFloat float_0_9000000000000001"
    using round_double_nearest [where q = "- 53" and k = 8106479329266894
        and x = "float_0_3 + float_0_6000000000000001"]
    by (simp add: power_int_minus round_double_numeral py_truediv_def)
  show ?thesis
    by (simp add: get_stack_keys_def py_range_def upto_rec1
        sub mul0 div0 add0 mul1 div1 add1 mul2 div2 add2 mul3 div3 add3 mul4 div4 add4
        del: py_sub.simps py_mul.simps py_add.simps)
qed

section \<open>The binner\<close>

subsection \<open>The scan over adjacent keys\<close>

lemma scan_keys_stop:
  "i < length keys \<Longrightarrow> keys ! (i - 1) \<le> x \<Longrightarrow> x < keys ! i \<Longrightarrow>
   scan_keys keys x i = Some (i - 1)"
  by (subst scan_keys.simps) simp

lemma scan_keys_next:
  "i < length keys \<Longrightarrow> \<not> (keys ! (i - 1) \<le> x \<and> x < keys ! i) \<Longrightarrow>
   scan_keys keys x i = scan_keys keys x (Suc i)"
  by (subst scan_keys.simps) auto

lemma scan_keys_end: "\<not> i < length keys \<Longrightarrow> scan_keys keys x i = None"
  by (subst scan_keys.simps) simp



lemma scan_keys_Some:
  "scan_keys keys x i = Some j \<Longrightarrow> 1 \<le> i \<Longrightarrow>
     i \<le> Suc j \<and> Suc j < length keys \<and> keys ! j \<le> x \<and> x < keys ! Suc j"
proof (induction keys x i rule: scan_keys.induct)
  case (1 keys x i)
  have inr: "i < length keys"
    using "1.prems"(1) scan_keys_end [of i keys x] by (cases "i < length keys") simp_all
  show ?case
  proof (cases "keys ! (i - 1) \<le> x \<and> x < keys ! i")
    case True
    then have "j = i - 1"
      using inr "1.prems"(1) scan_keys_stop [of i keys x] by simp
    then show ?thesis
      using True inr "1.prems"(2) by simp
  next
    case False
    then have "scan_keys keys x (Suc i) = Some j"
      using "1.prems"(1) scan_keys_next [OF inr False] by simp
    from "1.IH" [OF inr False this] show ?thesis
      by simp
  qed
qed

subsection \<open>One observation, and the loop over the data\<close>

lemma bin_key_in_keys: "keys \<noteq> [] \<Longrightarrow> bin_key keys x \<in> set keys"
proof (cases "scan_keys keys x 1")
  case None
  assume "keys \<noteq> []"
  then show ?thesis
    using None by (simp add: bin_key_def)
next
  case (Some j)
  then have "j < length keys"
    using scan_keys_Some [of keys x 1 j] by simp
  then show ?thesis
    using Some by (simp add: bin_key_def)
qed

lemma dict_append_present:
  "map_of d k = Some l \<Longrightarrow> dict_append d k x = Inr (AList.update k (l @ [x]) d)"
  by (simp add: dict_append_def)

lemma add_observation_bin_key:
  "keys \<noteq> [] \<Longrightarrow> add_observation keys d x = dict_append d (bin_key keys x) x"
  by (simp add: add_observation_def bin_key_def py_last_def split: option.splits)

lemma update_distinct_map:
  "distinct (map fst d) \<Longrightarrow> map_of d k = Some l \<Longrightarrow>
   AList.update k (l @ [x]) d = map (\<lambda>(k', l'). (k', if k' = k then l' @ [x] else l')) d"
proof (induction d)
  case Nil
  then show ?case by simp
next
  case (Cons p d)
  obtain k0 l0 where p: "p = (k0, l0)" by (cases p)
  show ?case
  proof (cases "k0 = k")
    case True
    then have "l0 = l" using Cons.prems(2) p by simp
    have "k \<notin> fst ` set d" using Cons.prems(1) p True by simp
    then have "map (\<lambda>(k', l'). (k', if k' = k then l' @ [x] else l')) d = d"
      by (intro map_idI) (auto simp: rev_image_eqI)
    then show ?thesis
      using p True \<open>l0 = l\<close> by simp
  next
    case False
    then show ?thesis
      using Cons p by simp
  qed
qed

lemma add_observation_map:
  assumes "keys \<noteq> []" and "set keys \<subseteq> fst ` set d" and "distinct (map fst d)"
  shows "add_observation keys d x =
           Inr (map (\<lambda>(k, l). (k, if k = bin_key keys x then l @ [x] else l)) d)"
proof -
  have "bin_key keys x \<in> fst ` set d"
    using assms(1,2) bin_key_in_keys by blast
  then obtain l where l: "map_of d (bin_key keys x) = Some l"
    by (metis map_of_eq_None_iff not_Some_eq)
  show ?thesis
    using assms(1) l update_distinct_map [OF assms(3) l]
    by (simp add: add_observation_bin_key dict_append_present)
qed

lemma bin_loop_filter:
  assumes "keys \<noteq> []" and "set keys \<subseteq> fst ` set d" and "distinct (map fst d)"
  shows "bin_loop keys d data =
           Inr (map (\<lambda>(k, l). (k, l @ filter (\<lambda>x. bin_key keys x = k) data)) d)"
  using assms(2,3)
proof (induction data arbitrary: d)
  case Nil
  then show ?case by simp
next
  case (Cons x data)
  define d' where "d' = map (\<lambda>(k, l). (k, if k = bin_key keys x then l @ [x] else l)) d"
  have step: "add_observation keys d x = Inr d'"
    unfolding d'_def using assms(1) Cons.prems by (rule add_observation_map)
  have fst_d': "map fst d' = map fst d"
    by (simp add: d'_def case_prod_beta comp_def)
  have "set keys \<subseteq> fst ` set d'" "distinct (map fst d')"
    using Cons.prems fst_d' by (metis list.set_map, metis)
  then have "bin_loop keys d' data =
      Inr (map (\<lambda>(k, l). (k, l @ filter (\<lambda>x. bin_key keys x = k) data)) d')"
    by (rule Cons.IH)
  also have "map (\<lambda>(k, l). (k, l @ filter (\<lambda>x. bin_key keys x = k) data)) d' =
      map (\<lambda>(k, l). (k, l @ filter (\<lambda>x. bin_key keys x = k) (x # data))) d"
    by (auto simp: d'_def)
  finally show ?case
    using step by simp
qed

subsection \<open>First occurrences\<close>

lemma first_occurrences_snoc:
  "first_occurrences (xs @ [k]) =
     (if k \<in> set xs then first_occurrences xs else first_occurrences xs @ [k])"
proof (induction xs rule: first_occurrences.induct)
  case 1
  then show ?case by simp
next
  case (2 x xs)
  show ?case
  proof (cases "x = k")
    case True
    then show ?thesis by simp
  next
    case False
    then show ?thesis
      using 2 by simp
  qed
qed

lemma set_first_occurrences [simp]: "set (first_occurrences xs) = set xs"
  by (induction xs rule: first_occurrences.induct) auto

lemma distinct_first_occurrences [simp]: "distinct (first_occurrences xs)"
  by (induction xs rule: first_occurrences.induct) auto

lemma first_occurrences_distinct: "distinct xs \<Longrightarrow> first_occurrences xs = xs"
  by (induction xs) (simp_all add: removeAll_id)

lemma length_first_occurrences_eq:
  "length (first_occurrences xs) = length xs \<longleftrightarrow> distinct xs"
  by (metis distinct_card distinct_first_occurrences set_first_occurrences
      first_occurrences_distinct card_distinct)

subsection \<open>The initial dict and the whole binner\<close>

lemma dict_init_snoc: "dict_init (ks @ [k]) = AList.update k [] (dict_init ks)"
  by (simp add: dict_init_def)

lemma dict_init_eq: "dict_init ks = map (\<lambda>k. (k, [])) (first_occurrences ks)"
proof (induction ks rule: rev_induct)
  case Nil
  then show ?case by (simp add: dict_init_def)
next
  case (snoc k ks)
  have upd: "AList.update k [] (map (\<lambda>k. (k, [])) us) =
      (if k \<in> set us then map (\<lambda>k. (k, [])) us else map (\<lambda>k. (k, [])) us @ [(k, [])])"
    for us :: "real list"
    by (induction us) auto
  show ?case
    by (simp add: dict_init_snoc first_occurrences_snoc snoc upd)
qed

lemma binner_filter:
  assumes "ks \<noteq> []"
  shows "bin_loop ks (dict_init ks) data =
           Inr (map (\<lambda>k. (k, filter (\<lambda>x. bin_key ks x = k) data)) (first_occurrences ks))"
proof -
  have "set ks \<subseteq> fst ` set (dict_init ks)" "distinct (map fst (dict_init ks))"
    by (simp_all add: dict_init_eq comp_def image_image)
  from bin_loop_filter [OF assms this, of data] show ?thesis
    by (simp add: dict_init_eq comp_def)
qed

lemma get_stack_dict_supplied:
  assumes "ks \<noteq> []"
  shows "get_stack_dict data num_stacks (Some ks) =
           Inr (map (\<lambda>k. (k, filter (\<lambda>x. bin_key (map val ks) x = k) (map val data)))
                    (first_occurrences (map val ks)))"
  using assms binner_filter [of "map val ks" "map val data"] by (simp add: get_stack_dict_def)

lemma get_stack_dict_generated:
  assumes "get_stack_keys data num_stacks = Inr ks" and "ks \<noteq> []"
  shows "get_stack_dict data num_stacks None =
           Inr (map (\<lambda>k. (k, filter (\<lambda>x. bin_key (map val ks) x = k) (map val data)))
                    (first_occurrences (map val ks)))"
  using get_stack_dict_supplied [OF assms(2), of data num_stacks] assms(1)
  by (simp add: get_stack_dict_def)

lemma get_stack_dict_no_data:
  "get_stack_dict [] num_stacks (Some ks) =
     Inr (map (\<lambda>k. (k, [])) (first_occurrences (map val ks)))"
  by (simp add: get_stack_dict_def dict_init_eq)

subsection \<open>What the loop keeps and what it adds\<close>

lemma get_stack_dict_keys_used:
  "get_stack_dict data num_stacks keys =
     (case keys_used data num_stacks keys of
        Inl e \<Rightarrow> Inl e
      | Inr ks \<Rightarrow> bin_loop ks (dict_init ks) (map val data))"
  by (simp add: get_stack_dict_def keys_used_def split: sum.splits option.splits)

lemma update_present_effect:
  "map_of d k = Some l \<Longrightarrow>
     map fst (AList.update k (l @ [x]) d) = map fst d \<and>
     mset (concat (map snd (AList.update k (l @ [x]) d))) = add_mset x (mset (concat (map snd d)))"
  by (induction d) (auto split: if_splits)

lemma dict_append_effect:
  assumes "dict_append d k x = Inr d'"
  shows "map fst d' = map fst d"
    and "mset (concat (map snd d')) = add_mset x (mset (concat (map snd d)))"
proof -
  obtain l where l: "map_of d k = Some l" and d': "d' = AList.update k (l @ [x]) d"
    using assms by (auto simp: dict_append_def split: option.splits)
  show "map fst d' = map fst d"
    and "mset (concat (map snd d')) = add_mset x (mset (concat (map snd d)))"
    using update_present_effect [OF l, of x] d' by simp_all
qed

lemma add_observation_effect:
  assumes "add_observation keys d x = Inr d'"
  shows "map fst d' = map fst d"
    and "mset (concat (map snd d')) = add_mset x (mset (concat (map snd d)))"
proof -
  obtain k where "dict_append d k x = Inr d'"
    using assms by (auto simp: add_observation_def split: option.splits sum.splits)
  then show "map fst d' = map fst d"
    and "mset (concat (map snd d')) = add_mset x (mset (concat (map snd d)))"
    by (rule dict_append_effect)+
qed

lemma bin_loop_effect:
  "bin_loop keys d data = Inr d' \<Longrightarrow>
     map fst d' = map fst d \<and>
     mset (concat (map snd d')) = mset (concat (map snd d)) + mset data"
proof (induction data arbitrary: d)
  case Nil
  then show ?case by simp
next
  case (Cons x data)
  then obtain d1 where step: "add_observation keys d x = Inr d1"
    and rest: "bin_loop keys d1 data = Inr d'"
    by (auto split: sum.splits)
  show ?case
    using Cons.IH [OF rest] add_observation_effect [OF step] by simp
qed

lemma get_stack_dict_effect:
  assumes "keys_used data num_stacks keys = Inr ks"
    and "get_stack_dict data num_stacks keys = Inr d"
  shows "map fst d = first_occurrences ks"
    and "mset (concat (map snd d)) = mset (map val data)"
proof -
  have "bin_loop ks (dict_init ks) (map val data) = Inr d"
    using assms by (simp add: get_stack_dict_keys_used)
  from bin_loop_effect [OF this]
  show "map fst d = first_occurrences ks"
    and "mset (concat (map snd d)) = mset (map val data)"
    by (simp_all add: dict_init_eq comp_def)
qed

lemma get_stack_dict_total:
  assumes "keys_used data num_stacks keys = Inr ks" and "ks \<noteq> []"
  shows "get_stack_dict data num_stacks keys =
           Inr (map (\<lambda>k. (k, filter (\<lambda>x. bin_key ks x = k) (map val data)))
                    (first_occurrences ks))"
  using assms binner_filter [of ks "map val data"] by (simp add: get_stack_dict_keys_used)

lemma sum_list_lengths:
  "sum_list (map (\<lambda>(k, l). length l) d) = size (mset (concat (map snd d)))"
  by (induction d) auto

section \<open>Claims about the binner\<close>

text \<open>
  Claim C1. Whenever the binner returns a mapping, its keys are pairwise distinct and the
  bin lists together hold exactly the observations of the dataset, each as often as the
  dataset has it: every observation went to exactly one list, none was lost and none
  duplicated, and the lengths of the lists add up to the length of the dataset. The binner
  does return a mapping for every dataset with supplied non-empty keys, and for every
  non-empty dataset with keys generated for \<open>num_stacks \<ge> 2\<close>.
\<close>

theorem binner_total_coverage:
  "(get_stack_dict data num_stacks keys = Inr d \<longrightarrow>
      distinct (dict_keys d) \<and>
      mset (concat (map snd d)) = mset (map val data) \<and>
      sum_list (map (\<lambda>(k, l). length l) d) = length data)
   \<and> ((\<exists>ks. keys = Some ks \<and> ks \<noteq> []) \<or> (keys = None \<and> data \<noteq> [] \<and> 2 \<le> num_stacks) \<longrightarrow>
        (\<exists>d. get_stack_dict data num_stacks keys = Inr d))"
proof (intro conjI impI)
  assume ok: "get_stack_dict data num_stacks keys = Inr d"
  then obtain ks where ks: "keys_used data num_stacks keys = Inr ks"
    by (auto simp: get_stack_dict_keys_used split: sum.splits)
  have keys: "map fst d = first_occurrences ks"
    and cover: "mset (concat (map snd d)) = mset (map val data)"
    using get_stack_dict_effect [OF ks ok] by simp_all
  show "distinct (dict_keys d)"
    using keys by (simp add: dict_keys_def)
  show "mset (concat (map snd d)) = mset (map val data)"
    by (rule cover)
  show "sum_list (map (\<lambda>(k, l). length l) d) = length data"
    using cover by (simp add: sum_list_lengths)
next
  assume "(\<exists>ks. keys = Some ks \<and> ks \<noteq> []) \<or> (keys = None \<and> data \<noteq> [] \<and> 2 \<le> num_stacks)"
  then have "\<exists>ks. keys_used data num_stacks keys = Inr ks \<and> ks \<noteq> []"
  proof
    assume "\<exists>ks. keys = Some ks \<and> ks \<noteq> []"
    then show ?thesis
      by (auto simp: keys_used_def)
  next
    assume gen: "keys = None \<and> data \<noteq> [] \<and> 2 \<le> num_stacks"
    then obtain ks where "get_stack_keys data num_stacks = Inr ks" and "ks \<noteq> []"
      using get_stack_keys_nonempty [of data num_stacks] by blast
    then show ?thesis
      using gen by (simp add: keys_used_def)
  qed
  then show "\<exists>d. get_stack_dict data num_stacks keys = Inr d"
    using get_stack_dict_total by blast
qed

theorem binner_total_coverage_witness:
  "get_stack_dict [PyInt 1, PyFloat 10] 2 (Some [PyInt 1, PyInt 10]) = Inr [(1, [1]), (10, [10])] \<and>
   distinct (dict_keys [(1 :: real, [1 :: real]), (10, [10])]) \<and>
   mset (concat (map snd [(1 :: real, [1 :: real]), (10, [10])]))
     = mset (map val [PyInt 1, PyFloat 10]) \<and>
   sum_list (map (\<lambda>(k, l). length l) [(1 :: real, [1 :: real]), (10, [10])])
     = length [PyInt 1, PyFloat 10] \<and>
   ((\<exists>ks. Some [PyInt 1, PyInt 10] = Some ks \<and> ks \<noteq> []) \<or>
      (Some [PyInt 1, PyInt 10] = None \<and> [PyInt 1, PyFloat 10] \<noteq> [] \<and> (2 :: int) \<le> 2)) \<and>
   (\<exists>d. get_stack_dict [PyInt 1, PyFloat 10] 2 (Some [PyInt 1, PyInt 10]) = Inr d)"
  using binner_total_coverage
    [of "[PyInt 1, PyFloat 10]" 2 "Some [PyInt 1, PyInt 10]" "[(1, [1]), (10, [10])]"]
  by (simp add: get_stack_dict_def dict_init_def add_observation_def dict_append_def
      py_last_def scan_keys.simps dict_keys_def)

text \<open>
  Claim C5, as stated, fails when a boundary key repeats: the dict binds a repeated key
  once. For the dataset \<open>[5, 5, 5]\<close> and three stacks the generated keys are
  \<open>[5, 5, 5]\<close> and the mapping has one key.
\<close>

theorem repeated_keys_counterexample:
  "get_stack_keys [PyInt 5, PyInt 5, PyInt 5] 3 = Inr [PyFloat 5, PyFloat 5, PyFloat 5] \<and>
   get_stack_dict [PyInt 5, PyInt 5, PyInt 5] 3 None = Inr [(5, [5, 5, 5])] \<and>
   length (dict_keys [(5, [5, 5, 5])]) \<noteq> length [PyFloat 5, PyFloat 5, PyFloat 5]"
  by (simp add: get_stack_dict_def get_stack_keys_def py_range_def py_truediv_def upto_rec1
      round_double_numeral dict_init_def add_observation_def dict_append_def py_last_def
      scan_keys.simps dict_keys_def)

text \<open>
  Claim C5, amended. The keys of the resulting mapping, in iteration order, are the
  boundary keys with every repeated value dropped after its first occurrence. So every
  boundary key is a key of the mapping (also one whose list stays empty), and the mapping
  has as many keys as there are boundary keys exactly when the boundary keys are pairwise
  distinct; then its keys are the boundary keys in their order.
\<close>

theorem binner_keys_first_occurrences:
  "keys_used data num_stacks keys = Inr ks \<Longrightarrow>
   get_stack_dict data num_stacks keys = Inr d \<Longrightarrow>
     dict_keys d = first_occurrences ks \<and>
     set (dict_keys d) = set ks \<and>
     (length (dict_keys d) = length ks \<longleftrightarrow> distinct ks) \<and>
     (distinct ks \<longrightarrow> dict_keys d = ks)"
proof -
  assume "keys_used data num_stacks keys = Inr ks"
    and "get_stack_dict data num_stacks keys = Inr d"
  then have "dict_keys d = first_occurrences ks"
    unfolding dict_keys_def by (rule get_stack_dict_effect)
  then show ?thesis
    by (simp add: length_first_occurrences_eq first_occurrences_distinct)
qed

theorem binner_keys_first_occurrences_witness:
  "keys_used [PyInt 2] 7 (Some [PyInt 1, PyFloat 1, PyInt 3]) = Inr [1, 1, 3] \<and>
   get_stack_dict [PyInt 2] 7 (Some [PyInt 1, PyFloat 1, PyInt 3]) = Inr [(1, [2]), (3, [])] \<and>
   dict_keys [(1, [2]), (3, [])] = first_occurrences [1, 1, 3 :: real] \<and>
   dict_keys [(1, [2]), (3, [])] = [1, 3] \<and>
   set (dict_keys [(1, [2]), (3, [])]) = set [1, 1, 3 :: real] \<and>
   length (dict_keys [(1, [2]), (3, [])]) \<noteq> length [1, 1, 3 :: real] \<and>
   \<not> distinct [1, 1, 3 :: real]"
  using binner_keys_first_occurrences
    [of "[PyInt 2]" 7 "Some [PyInt 1, PyFloat 1, PyInt 3]" "[1, 1, 3]" "[(1, [2]), (3, [])]"]
  by (simp add: keys_used_def get_stack_dict_def dict_init_def add_observation_def
      dict_append_def py_last_def scan_keys.simps dict_keys_def)

text \<open>
  Claim C10. With a supplied non-empty key sequence the binner returns a mapping for
  every dataset and every \<open>num_stacks\<close>, and the mapping does not depend on
  \<open>num_stacks\<close>: the key generator, which fails on the empty dataset and for
  \<open>num_stacks = 1\<close>, is not run. On the empty dataset the mapping has exactly the supplied
  keys, each bound to the empty list.
\<close>

theorem supplied_keys_bypass_generator:
  "ks \<noteq> [] \<Longrightarrow>
     (\<exists>d. get_stack_dict data num_stacks (Some ks) = Inr d) \<and>
     get_stack_dict data num_stacks (Some ks) = get_stack_dict data num_stacks' (Some ks) \<and>
     keys_used data num_stacks (Some ks) = Inr (map val ks) \<and>
     (\<exists>d. get_stack_dict [] num_stacks (Some ks) = Inr d \<and>
          set (dict_keys d) = set (map val ks) \<and>
          (\<forall>k \<in> set (map val ks). map_of d k = Some []) \<and>
          (\<forall>(k, l) \<in> set d. l = []))"
proof -
  assume ne: "ks \<noteq> []"
  have ret: "\<exists>d. get_stack_dict data num_stacks (Some ks) = Inr d"
    using get_stack_dict_supplied [OF ne] by simp
  have indep: "get_stack_dict data num_stacks (Some ks) = get_stack_dict data num_stacks' (Some ks)"
    by (simp add: get_stack_dict_def)
  have used: "keys_used data num_stacks (Some ks) = Inr (map val ks)"
    by (simp add: keys_used_def)
  define d0 :: stack_dict where "d0 = map (\<lambda>k. (k, [])) (first_occurrences (map val ks))"
  have "get_stack_dict [] num_stacks (Some ks) = Inr d0"
    by (simp add: d0_def get_stack_dict_no_data)
  moreover have "set (dict_keys d0) = set (map val ks)"
    by (simp add: d0_def dict_keys_def comp_def)
  moreover have "\<forall>k \<in> set (map val ks). map_of d0 k = Some []"
    by (simp add: d0_def map_of_map_restrict)
  moreover have "\<forall>(k, l) \<in> set d0. l = []"
    by (auto simp: d0_def)
  ultimately show ?thesis
    using ret indep used by blast
qed

theorem supplied_keys_bypass_generator_witness:
  "[PyInt 2, PyFloat 4] \<noteq> [] \<and>
   get_stack_dict [] 1 (Some [PyInt 2, PyFloat 4]) = Inr [(2, []), (4, [])] \<and>
   get_stack_dict [PyInt 3] 0 (Some [PyInt 2, PyFloat 4]) = Inr [(2, [3]), (4, [])] \<and>
   keys_used [] 1 (Some [PyInt 2, PyFloat 4]) = Inr [2, 4] \<and>
   set (dict_keys [(2, []), (4, [])]) = set [2, 4 :: real] \<and>
   map_of [(2 :: real, [] :: real list), (4, [])] 2 = Some [] \<and>
   map_of [(2 :: real, [] :: real list), (4, [])] 4 = Some []"
  using supplied_keys_bypass_generator [of "[PyInt 2, PyFloat 4]" "[]" 1 1]
  by (simp add: get_stack_dict_def dict_init_def add_observation_def
      dict_append_def py_last_def scan_keys.simps dict_keys_def)




section \<open>Rounded keys and the maximum\<close>

text \<open>
  Claim C3 does not hold of the code: for the dataset \<open>[0.3, 0.5, 0.9]\<close> and five stacks
  (three binary64 values, the last one the maximum) the key generator returns five keys,
  but the last key is the binary64 value above the maximum (\<open>0.9000000000000001\<close>), not
  the maximum \<open>0.9\<close> itself.
\<close>

theorem last_key_exceeds_maximum:
  "is_double float_0_3 \<and> is_double (1 / 2) \<and> is_double float_0_9 \<and>
   py_max [PyFloat float_0_3, PyFloat (1 / 2), PyFloat float_0_9] = Inr (PyFloat float_0_9) \<and>
   get_stack_keys [PyFloat float_0_3, PyFloat (1 / 2), PyFloat float_0_9] 5 =
     Inr [PyFloat float_0_3, PyFloat float_0_45, PyFloat float_0_6000000000000001,
          PyFloat (3 / 4), PyFloat float_0_9000000000000001] \<and>
   float_0_9 < float_0_9000000000000001"
proof -
  have "is_double float_0_3"
    unfolding is_double_def
    using round_double_nearest [where q = "- 54" and k = 5404319552844595
        and x = "float_0_3"]
    by (simp add: power_int_minus)
  moreover have "is_double (1 / 2)"
    unfolding is_double_def
    using round_double_nearest [where q = "- 53" and k = 4503599627370496 and x = "1 / 2"]
    by (simp add: power_int_minus)
  moreover have "is_double float_0_9"
    unfolding is_double_def
    using round_double_nearest [where q = "- 53" and k = 8106479329266893
        and x = "float_0_9"]
    by (simp add: power_int_minus)
  ultimately show ?thesis
    by (simp add: keys_three_tenths_to_nine_tenths)
qed

text \<open>
  Claim C4 does not hold of the code: for the same dataset and five stacks, the
  observation \<open>0.9\<close>, the maximum, is below the last key. The pair of the key \<open>0.75\<close> and the
  last key matches it, so it is appended to the list of \<open>0.75\<close>, and the list of the last
  key stays empty.
\<close>

theorem maximum_not_in_last_bin:
  "py_max [PyFloat float_0_3, PyFloat (1 / 2), PyFloat float_0_9] = Inr (PyFloat float_0_9) \<and>
   get_stack_dict [PyFloat float_0_3, PyFloat (1 / 2), PyFloat float_0_9] 5 None =
     Inr [(float_0_3, [float_0_3]),
          (float_0_45, [1 / 2]),
          (float_0_6000000000000001, []),
          (3 / 4, [float_0_9]),
          (float_0_9000000000000001, [])] \<and>
   scan_keys [float_0_3, float_0_45, float_0_6000000000000001, 3 / 4, float_0_9000000000000001]
             float_0_9 1 = Some 3 \<and>
   bin_key [float_0_3, float_0_45, float_0_6000000000000001, 3 / 4, float_0_9000000000000001]
           float_0_9 = 3 / 4 \<and>
   3 / 4 \<noteq> float_0_9000000000000001"
  by (simp add: get_stack_dict_def keys_three_tenths_to_nine_tenths dict_init_def
      add_observation_def dict_append_def py_last_def scan_keys.simps bin_key_def)

section \<open>Constant datasets\<close>

lemma first_occurrences_replicate: "0 < m \<Longrightarrow> first_occurrences (replicate m v) = [v]"
proof -
  have "removeAll v (replicate n v) = []" for n
    by (induction n) simp_all
  then show "0 < m \<Longrightarrow> first_occurrences (replicate m v) = [v]"
    by (cases m) simp_all
qed

lemma bin_key_replicate: "0 < m \<Longrightarrow> bin_key (replicate m v) x = v"
proof -
  assume "0 < m"
  then have "bin_key (replicate m v) x \<in> set (replicate m v)"
    by (intro bin_key_in_keys) simp
  then show ?thesis
    by simp
qed

lemma to_float_exact: "is_double (val a) \<Longrightarrow> to_float a = val a"
  by (cases a) (simp_all add: is_double_def)

lemma constant_key:
  assumes "val u = v" and "val l = v" and "is_double v"
  shows "py_add l (PyFloat (true_quotient (py_mul (PyInt i) (py_sub u l)) (PyInt m))) = PyFloat v"
proof -
  have tf: "to_float u = v" "to_float l = v"
    using assms to_float_exact by auto
  have sub: "py_sub u l = PyInt 0 \<or> py_sub u l = PyFloat 0"
  proof (cases u)
    case (PyInt a)
    then show ?thesis
    proof (cases l)
      case (PyInt b)
      then have "a = b"
        using assms(1,2) \<open>u = PyInt a\<close> by simp
      then show ?thesis
        using PyInt \<open>u = PyInt a\<close> by simp
    next
      case (PyFloat y)
      then show ?thesis
        using tf \<open>u = PyInt a\<close> by simp
    qed
  next
    case (PyFloat x)
    then show ?thesis
      using tf by (cases l) simp_all
  qed
  then have mul: "py_mul (PyInt i) (py_sub u l) = PyInt 0 \<or> py_mul (PyInt i) (py_sub u l) = PyFloat 0"
    by auto
  then have quot: "true_quotient (py_mul (PyInt i) (py_sub u l)) (PyInt m) = 0"
    by auto
  have "py_add l (PyFloat 0) = PyFloat (round_double (to_float l))"
    by (cases l) simp_all
  also have "\<dots> = PyFloat v"
    using assms(3) by (simp add: tf is_double_def)
  finally show ?thesis
    by (simp add: quot)
qed

lemma get_stack_keys_constant:
  assumes "data \<noteq> []" and "\<forall>x \<in> set data. val x = v" and "is_double v" and "2 \<le> num_stacks"
  shows "get_stack_keys data num_stacks = Inr (replicate (nat num_stacks) (PyFloat v))"
proof -
  obtain u l where ul: "u \<in> set data" "l \<in> set data"
    and keys: "get_stack_keys data num_stacks =
       Inr (map (\<lambda>i. py_add l (PyFloat (true_quotient (py_mul (PyInt i) (py_sub u l))
                                                        (PyInt (num_stacks - 1)))))
                [0..num_stacks - 1])"
    using get_stack_keys_ok [OF assms(1), of num_stacks] assms(4) by force
  have "val u = v" "val l = v"
    using ul assms(2) by auto
  then have key: "py_add l (PyFloat (true_quotient (py_mul (PyInt i) (py_sub u l))
                                                  (PyInt (num_stacks - 1)))) = PyFloat v" for i
    using assms(3) by (rule constant_key)
  have "get_stack_keys data num_stacks = Inr (map (\<lambda>i. PyFloat v) [0..num_stacks - 1])"
    using keys by (simp only: key)
  then show ?thesis
    by (simp add: map_replicate_const)
qed

text \<open>
  Claim C8, as stated, fails for a value that no \<open>float\<close> holds: for the dataset
  \<open>[2 ^ 53 + 1, 2 ^ 53 + 1]\<close> of two equal \<open>int\<close>s and two stacks, \<open>lower_bound + 0.0\<close>
  converts the \<open>int\<close> to the \<open>float\<close> \<open>2 ^ 53\<close>, and both keys are \<open>2 ^ 53\<close>.
\<close>

theorem unrepresentable_value_counterexample:
  "get_stack_keys [PyInt 9007199254740993, PyInt 9007199254740993] 2
     = Inr [PyFloat 9007199254740992, PyFloat 9007199254740992] \<and>
   val (PyFloat 9007199254740992) \<noteq> val (PyInt 9007199254740993) \<and>
   \<not> is_double 9007199254740993"
proof -
  have r: "round_double 9007199254740993 = 9007199254740992"
    using round_double_nearest [where q = 1 and k = 4503599627370496 and x = 9007199254740993]
    by simp
  have "py_add (PyInt 9007199254740993) (PyFloat 0) = PyFloat 9007199254740992"
    by (simp add: r round_double_numeral)
  then have "get_stack_keys [PyInt 9007199254740993, PyInt 9007199254740993] 2
     = Inr [PyFloat 9007199254740992, PyFloat 9007199254740992]"
    by (simp add: get_stack_keys_def py_range_def upto_rec1 py_truediv_def del: py_add.simps)
  then show ?thesis
    by (simp add: is_double_def r)
qed

text \<open>
  Claim C8, amended. When all observations of a non-empty dataset have one value, and
  that value is one a \<open>float\<close> holds exactly (as every \<open>float\<close> observation is, and every
  \<open>int\<close> up to \<open>2 ^ 53\<close> in magnitude), key generation for \<open>num_stacks \<ge> 2\<close> succeeds,
  every key is the \<open>float\<close> of that value, and the mapping has the single bin of that
  value, holding the whole dataset. For the dataset \<open>[5, 5, 5]\<close> and three stacks the keys
  are \<open>[5.0, 5.0, 5.0]\<close>, the mapping binds 5 to \<open>[5, 5, 5]\<close>, and the points are
  \<open>[(5, 1), (5, 2), (5, 3)]\<close>.
\<close>

theorem constant_dataset_collapses:
  "(data \<noteq> [] \<and> (\<forall>x \<in> set data. val x = v) \<and> is_double v \<and> 2 \<le> num_stacks \<longrightarrow>
      get_stack_keys data num_stacks = Inr (replicate (nat num_stacks) (PyFloat v)) \<and>
      get_stack_dict data num_stacks None = Inr [(v, map val data)])
   \<and> (\<bar>i\<bar> \<le> 2 ^ 53 \<longrightarrow> is_double (of_int i))
   \<and> get_stack_keys [PyInt 5, PyInt 5, PyInt 5] 3 = Inr [PyFloat 5, PyFloat 5, PyFloat 5]
   \<and> get_stack_dict [PyInt 5, PyInt 5, PyInt 5] 3 None = Inr [(5, [5, 5, 5])]
   \<and> get_points [(5, [5, 5, 5])] = [(5, 1), (5, 2), (5, 3)]"
proof (intro conjI impI)
  assume h: "data \<noteq> [] \<and> (\<forall>x \<in> set data. val x = v) \<and> is_double v \<and> 2 \<le> num_stacks"
  then show keys: "get_stack_keys data num_stacks = Inr (replicate (nat num_stacks) (PyFloat v))"
    by (intro get_stack_keys_constant) simp_all
  have pos: "0 < nat num_stacks"
    using h by simp
  then have "replicate (nat num_stacks) (PyFloat v) \<noteq> []"
    by simp
  from get_stack_dict_generated [OF keys this]
  have "get_stack_dict data num_stacks None = Inr [(v, filter (\<lambda>x. True) (map val data))]"
    using pos by (simp add: first_occurrences_replicate bin_key_replicate)
  then show "get_stack_dict data num_stacks None = Inr [(v, map val data)]"
    by simp
next
  assume "\<bar>i\<bar> \<le> 2 ^ 53"
  then show "is_double (of_int i)"
    unfolding is_double_def by (rule round_double_of_int)
next
  have five: "is_double 5"
    by (simp add: is_double_def round_double_numeral)
  show keys5: "get_stack_keys [PyInt 5, PyInt 5, PyInt 5] 3 = Inr [PyFloat 5, PyFloat 5, PyFloat 5]"
    using get_stack_keys_constant [of "[PyInt 5, PyInt 5, PyInt 5]" 5 3] five
    by (simp add: numeral_eq_Suc)
  then show "get_stack_dict [PyInt 5, PyInt 5, PyInt 5] 3 None = Inr [(5, [5, 5, 5])]"
    by (simp add: get_stack_dict_def dict_init_def add_observation_def dict_append_def
        py_last_def scan_keys.simps)
  show "get_points [(5, [5, 5, 5])] = [(5, 1), (5, 2), (5, 3)]"
    by (simp add: get_points_def)
qed

theorem constant_dataset_collapses_witness:
  "[PyInt 7, PyFloat 7] \<noteq> [] \<and> set (map val [PyInt 7, PyFloat 7]) = {7} \<and> is_double 7 \<and>
   (2 :: int) \<le> 4 \<and> \<bar>7 :: int\<bar> \<le> 2 ^ 53 \<and>
   get_stack_keys [PyInt 7, PyFloat 7] 4 = Inr [PyFloat 7, PyFloat 7, PyFloat 7, PyFloat 7] \<and>
   get_stack_dict [PyInt 7, PyFloat 7] 4 None = Inr [(7, [7, 7])]"
proof -
  have seven: "is_double 7"
    by (simp add: is_double_def round_double_numeral)
  show ?thesis
    using constant_dataset_collapses [of "[PyInt 7, PyFloat 7]" 7 4 7] seven
    by (simp add: numeral_eq_Suc)
qed

section \<open>The point projector\<close>

lemma inner_fold_points:
  "fold (\<lambda>(i, obs) acc. acc @ [(key, int i + 1)]) (enumerate n observations) acc =
     acc @ map (\<lambda>i. (key, int i + 1)) [n..<n + length observations]"
proof (induction observations arbitrary: n acc)
  case Nil
  then show ?case by simp
next
  case (Cons obs observations)
  have "[n..<n + length (obs # observations)] = n # [Suc n..<Suc n + length observations]"
    by (simp add: upt_conv_Cons del: upt_Suc)
  then show ?case
    using Cons.IH [of "Suc n" "acc @ [(key, int n + 1)]"] by (simp del: upt_Suc)
qed

lemma outer_fold_points:
  "fold (\<lambda>(key, observations) ordered_pairs.
             fold (\<lambda>(i, obs) acc. acc @ [(key, int i + 1)])
                  (enumerate 0 observations) ordered_pairs) d acc =
     acc @ concat (map stack_points d)"
proof (induction d arbitrary: acc)
  case Nil
  then show ?case by simp
next
  case (Cons p d)
  obtain key observations where p: "p = (key, observations)"
    by (cases p)
  show ?case
    using Cons.IH by (simp add: p inner_fold_points stack_points_def)
qed

lemma get_points_concat: "get_points d = concat (map stack_points d)"
  by (simp add: get_points_def outer_fold_points)

lemma length_points:
  "length (concat (map stack_points d)) = sum_list (map (\<lambda>(key, observations). length observations) d)"
  by (induction d) (auto simp: stack_points_def)

lemma heights_upto: "map (\<lambda>i. int i + 1) [0..<n] = [1..int n]"
proof (induction n)
  case 0
  then show ?case by simp
next
  case (Suc n)
  have "[1..int (Suc n)] = [1..int n] @ [int n + 1]"
    using upto_rec2 [of 1 "int (Suc n)"] by (simp add: add.commute)
  then show ?case
    using Suc by simp
qed

lemma filter_stack_points:
  "filter (\<lambda>p. fst p = k) (stack_points (k', l)) = (if k' = k then stack_points (k', l) else [])"
  by (auto simp: stack_points_def filter_empty_conv)

lemma group_of_key:
  "distinct (map fst d) \<Longrightarrow> (k, l) \<in> set d \<Longrightarrow>
   filter (\<lambda>p. fst p = k) (concat (map stack_points d)) = stack_points (k, l)"
proof (induction d)
  case Nil
  then show ?case by simp
next
  case (Cons q d)
  obtain k' l' where q: "q = (k', l')"
    by (cases q)
  show ?case
  proof (cases "(k, l) = q")
    case True
    then have "k \<notin> fst ` set d"
      using Cons.prems(1) by (simp add: True [symmetric])
    then have "filter (\<lambda>p. fst p = k) (concat (map stack_points d)) = []"
      by (force simp: filter_empty_conv stack_points_def)
    then show ?thesis
      using True q by (simp add: filter_stack_points)
  next
    case False
    then have mem: "(k, l) \<in> set d"
      using Cons.prems(2) by simp
    then have "k \<in> fst ` set d"
      by force
    then have "k' \<noteq> k"
      using Cons.prems(1) q by auto
    then show ?thesis
      using Cons.IH mem Cons.prems(1) q by (simp add: filter_stack_points)
  qed
qed

text \<open>
  Claim C9. The points are, for each entry of the mapping in iteration order and each
  position \<open>index\<close> of its list in order, the pair \<open>(key, index + 1)\<close>. There is one point
  per observation. When the keys of the mapping are pairwise distinct, the points of one
  key are a contiguous run of the output whose heights are \<open>1, 2, \<dots>, k\<close> in ascending
  order, \<open>k\<close> being the length of the key's list.
\<close>

theorem points_stack_in_order:
  "get_points d =
     concat (map (\<lambda>(key, observations).
                    map (\<lambda>index. (key, int index + 1)) [0..<length observations]) d)
   \<and> length (get_points d) = sum_list (map (\<lambda>(key, observations). length observations) d)
   \<and> (distinct (dict_keys d) \<and> (k, l) \<in> set d \<longrightarrow>
        filter (\<lambda>p. fst p = k) (get_points d) = map (\<lambda>index. (k, int index + 1)) [0..<length l] \<and>
        map snd (filter (\<lambda>p. fst p = k) (get_points d)) = [1..int (length l)])"
proof (intro conjI impI)
  show "get_points d =
     concat (map (\<lambda>(key, observations).
                    map (\<lambda>index. (key, int index + 1)) [0..<length observations]) d)"
    using get_points_concat [of d] by (simp add: stack_points_def)
  show "length (get_points d) = sum_list (map (\<lambda>(key, observations). length observations) d)"
    by (simp add: get_points_concat length_points)
next
  assume h: "distinct (dict_keys d) \<and> (k, l) \<in> set d"
  then have grp: "filter (\<lambda>p. fst p = k) (get_points d) = stack_points (k, l)"
    by (simp add: get_points_concat group_of_key dict_keys_def)
  then show "filter (\<lambda>p. fst p = k) (get_points d) = map (\<lambda>index. (k, int index + 1)) [0..<length l]"
    by (simp add: stack_points_def)
  show "map snd (filter (\<lambda>p. fst p = k) (get_points d)) = [1..int (length l)]"
    using heights_upto [of "length l"] by (simp add: grp stack_points_def comp_def)
qed

theorem points_stack_in_order_witness:
  "distinct (dict_keys [(1, [1, 2]), (4, []), (6, [6, 6, 9])]) \<and>
   (6, [6, 6, 9]) \<in> set [(1 :: real, [1, 2 :: real]), (4, []), (6, [6, 6, 9])] \<and>
   get_points [(1, [1, 2]), (4, []), (6, [6, 6, 9])] = [(1, 1), (1, 2), (6, 1), (6, 2), (6, 3)] \<and>
   filter (\<lambda>p. fst p = 6) (get_points [(1, [1, 2]), (4, []), (6, [6, 6, 9])])
     = [(6, 1), (6, 2), (6, 3)] \<and>
   map snd (filter (\<lambda>p. fst p = 6) (get_points [(1, [1, 2]), (4, []), (6, [6, 6, 9])]))
     = [1..int (length [6, 6, 9 :: real])]"
  using points_stack_in_order [of "[(1, [1, 2]), (4, []), (6, [6, 6, 9])]" 6 "[6, 6, 9]"]
  by (simp add: dict_keys_def get_points_def)

end
